theory Spec2Isabelle
  imports Complex_Main
begin

section \<open>Errors of the host interpreter and library\<close>

text \<open>
  The script \<^verbatim>\<open>testing_tensorflow_linear_regression.py\<close> handles no error itself:
  whatever the interpreter or the tensor library raises ends the run. Each exception the
  embedded code can raise is a value of this type.
\<close>

datatype error = IndexError | ZeroDivisionError | NameError | RuntimeError

section \<open>The paired sample container \<^verbatim>\<open>Data\<close>\<close>

text \<open>
  A two-dimensional array is the list of its rows. The constructor converts both arrays
  to single precision (\<^verbatim>\<open>astype(np.float32)\<close>) before wrapping them as tensors;
  the conversion of one entry is the parameter \<open>float32\<close>, so that nothing is assumed
  about rounding. \<^verbatim>\<open>self.len\<close> is \<^verbatim>\<open>self.X.shape[0]\<close>, the row count
  of the feature tensor only.
\<close>

record 'b Data =
  self_X :: "'b list list"
  self_y :: "'b list list"
  self_len :: int

definition astype :: "('a \<Rightarrow> 'b) \<Rightarrow> 'a list list \<Rightarrow> 'b list list" where
  "astype float32 A = map (map float32) A"

definition shape0 :: "'b list list \<Rightarrow> int" where
  "shape0 A = int (length A)"

definition Data_init :: "('a \<Rightarrow> 'b) \<Rightarrow> 'a list list \<Rightarrow> 'a list list \<Rightarrow> 'b Data" where
  "Data_init float32 X y =
     \<lparr> self_X = astype float32 X,
       self_y = astype float32 y,
       self_len = shape0 (astype float32 X) \<rparr>"

text \<open>
  Indexing a tensor along its first axis with an integer: a negative index counts from
  the end, and an index outside the rows raises \<^verbatim>\<open>IndexError\<close>.
\<close>

definition tensor_index :: "'b list \<Rightarrow> int \<Rightarrow> error + 'b" where
  "tensor_index t index =
     (let n = int (length t); j = (if index < 0 then index + n else index)
      in if 0 \<le> j \<and> j < n then Inr (t ! nat j) else Inl IndexError)"

text \<open>
  \<^verbatim>\<open>__getitem__\<close> builds the tuple left to right: the feature row first, then the
  target row; the first failing subscript ends the call.
\<close>

definition Data_getitem :: "'b Data \<Rightarrow> int \<Rightarrow> error + ('b list \<times> 'b list)" where
  "Data_getitem self index =
     (case tensor_index (self_X self) index of
        Inl e \<Rightarrow> Inl e
      | Inr xrow \<Rightarrow>
          (case tensor_index (self_y self) index of
             Inl e \<Rightarrow> Inl e
           | Inr yrow \<Rightarrow> Inr (xrow, yrow)))"

definition Data_len :: "'b Data \<Rightarrow> int" where
  "Data_len self = self_len self"

section \<open>Properties of the container\<close>

lemma Data_len_init: "Data_len (Data_init float32 X y) = int (length X)"
  by (simp add: Data_len_def Data_init_def shape0_def astype_def)

lemma tensor_index_in_range:
  assumes "0 \<le> i" and "i < int (length t)"
  shows "tensor_index t i = Inr (t ! nat i)"
  using assms by (simp add: tensor_index_def)

lemma tensor_index_beyond:
  assumes "int (length t) \<le> i"
  shows "tensor_index t i = Inl IndexError"
  using assms by (simp add: tensor_index_def)

lemma Data_getitem_beyond_targets:
  assumes "int (length y) \<le> i" and "i < int (length X)"
  shows "Data_getitem (Data_init float32 X y) i = Inl IndexError"
proof -
  from assms have nonneg: "0 \<le> i" by linarith
  have "tensor_index (astype float32 X) i = Inr (astype float32 X ! nat i)"
    using nonneg assms(2) by (intro tensor_index_in_range) (simp_all add: astype_def)
  moreover have "tensor_index (astype float32 y) i = Inl IndexError"
    using assms(1) by (intro tensor_index_beyond) (simp add: astype_def)
  ultimately show ?thesis
    by (simp add: Data_getitem_def Data_init_def)
qed

text \<open>
  Claim C5, as stated: for every container built from arrays \<open>X\<close> and \<open>y\<close>, every index
  \<open>0 \<le> i < len\<close> yields the pair of row \<open>i\<close> of both arrays. It fails when \<open>y\<close> has
  fewer rows than \<open>X\<close>: with two feature rows and one target row, the length is 2 and
  index 1 raises \<^verbatim>\<open>IndexError\<close> instead of returning a pair.
\<close>

theorem Data_getitem_short_targets_counterexample:
  "Data_len (Data_init id [[1::real], [2]] [[10]]) = 2 \<and>
   Data_getitem (Data_init id [[1::real], [2]] [[10]]) 1 = Inl IndexError"
  by (simp add: Data_len_def Data_getitem_def Data_init_def shape0_def astype_def
      tensor_index_def)

text \<open>
  Claim C5, amended: for every container built from arrays \<open>X\<close> and \<open>y\<close>, \<^verbatim>\<open>__len__\<close>
  returns the number of rows of the backing feature array, which is the number of rows of
  \<open>X\<close>; and when \<open>y\<close> has at least as many rows as \<open>X\<close>, every index \<open>0 \<le> i < len\<close> yields
  the pair of row \<open>i\<close> of the features and row \<open>i\<close> of the targets, which hold the entries
  of row \<open>i\<close> of \<open>X\<close> and of row \<open>i\<close> of \<open>y\<close> as the constructor stored them.
\<close>

theorem Data_len_getitem:
  "Data_len (Data_init float32 X y) = int (length (self_X (Data_init float32 X y))) \<and>
   Data_len (Data_init float32 X y) = int (length X) \<and>
   (length X \<le> length y \<longrightarrow>
      (\<forall>i. 0 \<le> i \<and> i < Data_len (Data_init float32 X y) \<longrightarrow>
         Data_getitem (Data_init float32 X y) i =
           Inr (self_X (Data_init float32 X y) ! nat i, self_y (Data_init float32 X y) ! nat i) \<and>
         self_X (Data_init float32 X y) ! nat i = map float32 (X ! nat i) \<and>
         self_y (Data_init float32 X y) ! nat i = map float32 (y ! nat i)))"
proof -
  let ?d = "Data_init float32 X y"
  have backing: "self_X ?d = astype float32 X" "self_y ?d = astype float32 y"
    by (simp_all add: Data_init_def)
  have len_backing: "Data_len ?d = int (length (self_X ?d))"
    by (simp add: Data_len_init backing astype_def)
  have rows: "Data_getitem ?d i = Inr (self_X ?d ! nat i, self_y ?d ! nat i) \<and>
      self_X ?d ! nat i = map float32 (X ! nat i) \<and>
      self_y ?d ! nat i = map float32 (y ! nat i)"
    if enough: "length X \<le> length y" and nonneg: "0 \<le> i" and below: "i < Data_len ?d" for i
  proof -
    from below have iX: "i < int (length X)" by (simp add: Data_len_init)
    with enough have iy: "i < int (length y)" by linarith
    have x: "tensor_index (self_X ?d) i = Inr (self_X ?d ! nat i)"
      using nonneg iX by (intro tensor_index_in_range) (simp_all add: backing astype_def)
    have y: "tensor_index (self_y ?d) i = Inr (self_y ?d ! nat i)"
      using nonneg iy by (intro tensor_index_in_range) (simp_all add: backing astype_def)
    have get: "Data_getitem ?d i = Inr (self_X ?d ! nat i, self_y ?d ! nat i)"
      by (simp add: Data_getitem_def x y)
    have xrow: "self_X ?d ! nat i = map float32 (X ! nat i)"
      using nonneg iX by (simp add: backing astype_def)
    have yrow: "self_y ?d ! nat i = map float32 (y ! nat i)"
      using nonneg iy by (simp add: backing astype_def)
    from get xrow yrow show ?thesis by blast
  qed
  from len_backing Data_len_init [of float32 X y] rows show ?thesis
    by blast
qed

theorem Data_len_getitem_witness:
  "length [[1::real, 2], [3, 4]] \<le> length [[10::real], [20]] \<and>
   Data_len (Data_init id [[1::real, 2], [3, 4]] [[10], [20]]) = 2 \<and>
   Data_getitem (Data_init id [[1::real, 2], [3, 4]] [[10], [20]]) 1 = Inr ([3, 4], [20])"
proof -
  let ?d = "Data_init id [[1::real, 2], [3, 4]] [[10], [20]]"
  have len: "Data_len ?d = 2" by (simp add: Data_len_init)
  have enough: "length [[1::real, 2], [3, 4]] \<le> length [[10::real], [20]]" by simp
  have idx: "(0::int) \<le> 1 \<and> 1 < Data_len ?d" by (simp add: len)
  from Data_len_getitem [of id "[[1::real, 2], [3, 4]]" "[[10], [20]]"] enough idx
  have "Data_getitem ?d 1 = Inr (self_X ?d ! nat 1, self_y ?d ! nat 1) \<and>
      self_X ?d ! nat 1 = map id ([[1::real, 2], [3, 4]] ! nat 1) \<and>
      self_y ?d ! nat 1 = map id ([[10::real], [20]] ! nat 1)"
    by blast
  then have "Data_getitem ?d 1 = Inr ([3, 4], [20])" by simp
  with len enough show ?thesis by simp
qed

text \<open>
  Claim C9: the constructor compares no row counts. For every pair of arrays the
  container is built (\<open>Data_init\<close> has no failing branch) and its length is the row count
  of \<open>X\<close> whatever the length of \<open>y\<close>; when \<open>y\<close> has fewer rows than \<open>X\<close>, every index
  from the row count of \<open>y\<close> up to the length is accepted by the length and raises
  \<^verbatim>\<open>IndexError\<close> on the target tensor, and such an index exists.
\<close>

theorem Data_init_unchecked:
  "Data_len (Data_init float32 X y) = int (length X) \<and>
   (length y < length X \<longrightarrow>
      (\<forall>i. int (length y) \<le> i \<and> i < Data_len (Data_init float32 X y) \<longrightarrow>
         Data_getitem (Data_init float32 X y) i = Inl IndexError) \<and>
      (\<exists>i. 0 \<le> i \<and> i < Data_len (Data_init float32 X y) \<and>
         Data_getitem (Data_init float32 X y) i = Inl IndexError))"
proof -
  have beyond: "Data_getitem (Data_init float32 X y) i = Inl IndexError"
    if "int (length y) \<le> i" and "i < Data_len (Data_init float32 X y)" for i
    using that by (intro Data_getitem_beyond_targets) (simp_all add: Data_len_init)
  have "\<exists>i. 0 \<le> i \<and> i < Data_len (Data_init float32 X y) \<and>
          Data_getitem (Data_init float32 X y) i = Inl IndexError"
    if short: "length y < length X"
  proof (intro exI conjI)
    show "0 \<le> int (length y)" by simp
    show "int (length y) < Data_len (Data_init float32 X y)"
      using short by (simp add: Data_len_init)
    then show "Data_getitem (Data_init float32 X y) (int (length y)) = Inl IndexError"
      by (intro beyond) simp_all
  qed
  with beyond show ?thesis
    by (simp add: Data_len_init)
qed

theorem Data_init_unchecked_witness:
  "length [[10::real]] < length [[1::real], [2]] \<and>
   Data_len (Data_init id [[1::real], [2]] [[10]]) = 2 \<and>
   (\<exists>i. 0 \<le> i \<and> i < Data_len (Data_init id [[1::real], [2]] [[10]]) \<and>
      Data_getitem (Data_init id [[1::real], [2]] [[10]]) i = Inl IndexError)"
  using Data_init_unchecked [of id "[[1::real], [2]]" "[[10]]"]
  by (simp add: Data_len_init)

section \<open>The model \<^verbatim>\<open>LinearRegression\<close>\<close>

text \<open>
  A layer \<^verbatim>\<open>nn.Linear(in_features, out_features)\<close> holds a weight matrix of
  \<open>out_features\<close> rows and \<open>in_features\<close> columns and a bias vector of \<open>out_features\<close>
  entries. The constructor fixes these shapes and the optimizer updates the entries in
  place, so \<open>Linear_shaped\<close> holds of every layer throughout the run. The entries are
  taken as real numbers: the statement about the forward pass is one of exact arithmetic,
  not of the rounded single precision arithmetic the tensor library computes with.
\<close>

record Linear =
  in_features :: nat
  out_features :: nat
  weight :: "real list list"
  bias :: "real list"

definition Linear_shaped :: "Linear \<Rightarrow> bool" where
  "Linear_shaped l \<longleftrightarrow>
     length (weight l) = out_features l \<and>
     (\<forall>row \<in> set (weight l). length row = in_features l) \<and>
     length (bias l) = out_features l"

text \<open>
  Calling a layer on a vector \<open>x\<close> computes \<open>x W\<^sup>T + b\<close>: entry \<open>j\<close> of the result is the
  inner product of row \<open>j\<close> of the weight with \<open>x\<close>, plus entry \<open>j\<close> of the bias. A vector
  whose length is not \<open>in_features\<close> makes the library raise \<^verbatim>\<open>RuntimeError\<close>.
\<close>

definition dot :: "real list \<Rightarrow> real list \<Rightarrow> real" where
  "dot u v = sum_list (map2 (*) u v)"

definition matvec :: "real list list \<Rightarrow> real list \<Rightarrow> real list" where
  "matvec W x = map (\<lambda>row. dot row x) W"

definition vadd :: "real list \<Rightarrow> real list \<Rightarrow> real list" where
  "vadd u v = map2 (+) u v"

definition Linear_call :: "Linear \<Rightarrow> real list \<Rightarrow> error + real list" where
  "Linear_call l x =
     (if length x = in_features l
      then Inr (vadd (matvec (weight l) x) (bias l))
      else Inl RuntimeError)"

text \<open>
  The model has four layers; \<^verbatim>\<open>__init__\<close> chains their sizes as
  \<open>input_dim \<rightarrow> hidden_dim \<rightarrow> hidden_dim \<rightarrow> hidden_dim \<rightarrow> output_dim\<close>.
\<close>

record LinearRegression =
  input_to_hidden :: Linear
  hidden_layer_1 :: Linear
  hidden_layer_2 :: Linear
  hidden_to_output :: Linear

definition LinearRegression_shaped :: "nat \<Rightarrow> nat \<Rightarrow> nat \<Rightarrow> LinearRegression \<Rightarrow> bool" where
  "LinearRegression_shaped input_dim hidden_dim output_dim self \<longleftrightarrow>
     Linear_shaped (input_to_hidden self) \<and>
     in_features (input_to_hidden self) = input_dim \<and>
     out_features (input_to_hidden self) = hidden_dim \<and>
     Linear_shaped (hidden_layer_1 self) \<and>
     in_features (hidden_layer_1 self) = hidden_dim \<and>
     out_features (hidden_layer_1 self) = hidden_dim \<and>
     Linear_shaped (hidden_layer_2 self) \<and>
     in_features (hidden_layer_2 self) = hidden_dim \<and>
     out_features (hidden_layer_2 self) = hidden_dim \<and>
     Linear_shaped (hidden_to_output self) \<and>
     in_features (hidden_to_output self) = hidden_dim \<and>
     out_features (hidden_to_output self) = output_dim"

text \<open>
  \<^verbatim>\<open>forward\<close> calls the four layers in sequence, with nothing between them.
\<close>

definition forward :: "LinearRegression \<Rightarrow> real list \<Rightarrow> error + real list" where
  "forward self x =
     (case Linear_call (input_to_hidden self) x of
        Inl e \<Rightarrow> Inl e
      | Inr x1 \<Rightarrow>
          (case Linear_call (hidden_layer_1 self) x1 of
             Inl e \<Rightarrow> Inl e
           | Inr x2 \<Rightarrow>
               (case Linear_call (hidden_layer_2 self) x2 of
                  Inl e \<Rightarrow> Inl e
                | Inr x3 \<Rightarrow> Linear_call (hidden_to_output self) x3)))"

text \<open>
  The single layer the four collapse to. \<open>vecmat n u W\<close> is the row vector \<open>u\<close> times the
  matrix \<open>W\<close> of row length \<open>n\<close>, so \<open>matmul n A B\<close> is the matrix product, and composing an
  outer layer \<open>(A, c)\<close> with an inner layer \<open>(B, d)\<close> gives weight \<open>A B\<close> and bias \<open>A d + c\<close>.
\<close>

fun vecmat :: "nat \<Rightarrow> real list \<Rightarrow> real list list \<Rightarrow> real list" where
  "vecmat n (a # u) (row # W) = vadd (map ((*) a) row) (vecmat n u W)"
| "vecmat n u W = replicate n 0"

definition matmul :: "nat \<Rightarrow> real list list \<Rightarrow> real list list \<Rightarrow> real list list" where
  "matmul n A B = map (\<lambda>u. vecmat n u B) A"

definition compose_Linear :: "Linear \<Rightarrow> Linear \<Rightarrow> Linear" where
  "compose_Linear outer inner =
     \<lparr> in_features = in_features inner,
       out_features = out_features outer,
       weight = matmul (in_features inner) (weight outer) (weight inner),
       bias = vadd (matvec (weight outer) (bias inner)) (bias outer) \<rparr>"

definition single_affine :: "LinearRegression \<Rightarrow> Linear" where
  "single_affine self =
     compose_Linear (hidden_to_output self)
       (compose_Linear (hidden_layer_2 self)
          (compose_Linear (hidden_layer_1 self) (input_to_hidden self)))"

section \<open>The forward pass is one affine map\<close>

lemma dot_Nil [simp]: "dot [] v = 0" "dot u [] = 0"
  by (simp_all add: dot_def)

lemma dot_Cons [simp]: "dot (a # u) (b # v) = a * b + dot u v"
  by (simp add: dot_def)

lemma vadd_Cons [simp]: "vadd (a # u) (b # v) = (a + b) # vadd u v"
  by (simp add: vadd_def)

lemma vadd_Nil [simp]: "vadd [] v = []" "vadd u [] = []"
  by (simp_all add: vadd_def)

lemma length_vadd [simp]: "length (vadd u v) = min (length u) (length v)"
  by (simp add: vadd_def)

lemma length_matvec [simp]: "length (matvec W x) = length W"
  by (simp add: matvec_def)

lemma dot_replicate_zero [simp]: "dot (replicate n 0) x = 0"
proof (induction n arbitrary: x)
  case 0
  then show ?case by simp
next
  case (Suc n)
  then show ?case by (cases x) simp_all
qed

lemma dot_scale: "dot (map ((*) a) u) x = a * dot u x"
proof (induction u arbitrary: x)
  case Nil
  then show ?case by simp
next
  case (Cons b u)
  then show ?case by (cases x) (simp_all add: algebra_simps)
qed

lemma dot_vadd:
  assumes "length u = length v"
  shows "dot (vadd u v) x = dot u x + dot v x"
  using assms
proof (induction u v arbitrary: x rule: list_induct2)
  case Nil
  then show ?case by simp
next
  case (Cons a u b v)
  then show ?case by (cases x) (simp_all add: algebra_simps)
qed

lemma length_vecmat:
  assumes "\<forall>row \<in> set W. length row = n"
  shows "length (vecmat n u W) = n"
  using assms
proof (induction n u W rule: vecmat.induct)
  case (1 n a u row W)
  then show ?case by simp
qed simp_all

lemma dot_affine:
  assumes "length u = length W" and "length W = length b"
    and "\<forall>row \<in> set W. length row = n"
  shows "dot u (vadd (matvec W x) b) = dot (vecmat n u W) x + dot u b"
  using assms
proof (induction u W b rule: list_induct3)
  case Nil
  then show ?case by simp
next
  case (Cons a u row W c b)
  have len: "length (map ((*) a) row) = length (vecmat n u W)"
    using Cons.prems by (simp add: length_vecmat)
  have "dot (a # u) (vadd (matvec (row # W) x) (c # b)) =
      a * (dot row x + c) + dot u (vadd (matvec W x) b)"
    by (simp add: matvec_def)
  also have "\<dots> = a * (dot row x + c) + (dot (vecmat n u W) x + dot u b)"
    using Cons.IH Cons.prems by simp
  also have "\<dots> = dot (vecmat n (a # u) (row # W)) x + dot (a # u) (c # b)"
    by (simp add: dot_vadd [OF len] dot_scale algebra_simps)
  finally show ?case .
qed

lemma matvec_affine:
  assumes A: "\<forall>u \<in> set A. length u = length W" and "length A = length c"
    and W: "length W = length b" "\<forall>row \<in> set W. length row = n"
  shows "vadd (matvec A (vadd (matvec W x) b)) c =
         vadd (matvec (matmul n A W) x) (vadd (matvec A b) c)"
  using assms(2) A
proof (induction A c rule: list_induct2)
  case Nil
  then show ?case by (simp add: matvec_def matmul_def)
next
  case (Cons u A g c)
  have "dot u (vadd (matvec W x) b) = dot (vecmat n u W) x + dot u b"
    using Cons.prems W by (intro dot_affine) simp_all
  moreover have "vadd (matvec A (vadd (matvec W x) b)) c =
         vadd (matvec (matmul n A W) x) (vadd (matvec A b) c)"
    using Cons.IH Cons.prems by simp
  ultimately show ?case
    by (simp add: matvec_def matmul_def)
qed

lemma compose_Linear_shaped:
  assumes "Linear_shaped inner" and "Linear_shaped outer"
    and "out_features inner = in_features outer"
  shows "Linear_shaped (compose_Linear outer inner)"
  using assms
  by (simp add: Linear_shaped_def compose_Linear_def matmul_def length_vecmat)

lemma compose_Linear_call:
  assumes "Linear_shaped inner" and "Linear_shaped outer"
    and "out_features inner = in_features outer"
  shows "(case Linear_call inner x of Inl e \<Rightarrow> Inl e | Inr x' \<Rightarrow> Linear_call outer x') =
         Linear_call (compose_Linear outer inner) x"
proof (cases "length x = in_features inner")
  case False
  then show ?thesis by (simp add: Linear_call_def compose_Linear_def)
next
  case True
  have len: "length (vadd (matvec (weight inner) x) (bias inner)) = in_features outer"
    using assms by (simp add: Linear_shaped_def)
  have "vadd (matvec (weight outer) (vadd (matvec (weight inner) x) (bias inner))) (bias outer) =
      vadd (matvec (matmul (in_features inner) (weight outer) (weight inner)) x)
        (vadd (matvec (weight outer) (bias inner)) (bias outer))"
    using assms by (intro matvec_affine) (simp_all add: Linear_shaped_def)
  then show ?thesis using True len
    by (simp add: Linear_call_def compose_Linear_def)
qed


lemma dot_sum:
  assumes "length u = length x"
  shows "dot u x = (\<Sum>k<length x. u ! k * x ! k)"
  using assms
proof (induction u x rule: list_induct2)
  case Nil
  then show ?case by simp
next
  case (Cons a u b x)
  then show ?case by (simp add: sum.lessThan_Suc_shift del: sum.lessThan_Suc)
qed

lemma affine_entry:
  assumes "j < length W" and "length b = length W" and "length (W ! j) = length x"
  shows "vadd (matvec W x) b ! j = (\<Sum>k<length x. W ! j ! k * x ! k) + b ! j"
  using assms by (simp add: vadd_def matvec_def dot_sum)

lemma forward_collapse:
  assumes "LinearRegression_shaped input_dim hidden_dim output_dim self"
  shows "Linear_shaped (single_affine self)"
    and "in_features (single_affine self) = input_dim"
    and "out_features (single_affine self) = output_dim"
    and "forward self x = Linear_call (single_affine self) x"
proof -
  let ?l1 = "input_to_hidden self" and ?l2 = "hidden_layer_1 self"
  let ?l3 = "hidden_layer_2 self" and ?l4 = "hidden_to_output self"
  let ?c2 = "compose_Linear ?l2 ?l1"
  let ?c3 = "compose_Linear ?l3 ?c2"
  from assms have s: "Linear_shaped ?l1" "Linear_shaped ?l2" "Linear_shaped ?l3"
      "Linear_shaped ?l4"
    and d: "in_features ?l1 = input_dim" "out_features ?l1 = in_features ?l2"
      "out_features ?l2 = in_features ?l3" "out_features ?l3 = in_features ?l4"
      "out_features ?l4 = output_dim"
    by (simp_all add: LinearRegression_shaped_def)
  have s2: "Linear_shaped ?c2" by (rule compose_Linear_shaped [OF s(1) s(2) d(2)])
  have o2: "out_features ?c2 = in_features ?l3" using d by (simp add: compose_Linear_def)
  have s3: "Linear_shaped ?c3" by (rule compose_Linear_shaped [OF s2 s(3) o2])
  have o3: "out_features ?c3 = in_features ?l4" using d by (simp add: compose_Linear_def)
  show "Linear_shaped (single_affine self)"
    unfolding single_affine_def by (rule compose_Linear_shaped [OF s3 s(4) o3])
  show "in_features (single_affine self) = input_dim"
    using d by (simp add: single_affine_def compose_Linear_def)
  show "out_features (single_affine self) = output_dim"
    using d by (simp add: single_affine_def compose_Linear_def)
  have c2: "(case Linear_call ?l1 x of Inl e \<Rightarrow> Inl e | Inr x' \<Rightarrow> Linear_call ?l2 x') =
      Linear_call ?c2 x"
    by (rule compose_Linear_call [OF s(1) s(2) d(2)])
  have c3: "(case Linear_call ?c2 x of Inl e \<Rightarrow> Inl e | Inr x' \<Rightarrow> Linear_call ?l3 x') =
      Linear_call ?c3 x"
    by (rule compose_Linear_call [OF s2 s(3) o2])
  have c4: "(case Linear_call ?c3 x of Inl e \<Rightarrow> Inl e | Inr x' \<Rightarrow> Linear_call ?l4 x') =
      Linear_call (single_affine self) x"
    unfolding single_affine_def by (rule compose_Linear_call [OF s3 s(4) o3])
  have "forward self x =
      (case (case (case Linear_call ?l1 x of Inl e \<Rightarrow> Inl e | Inr x' \<Rightarrow> Linear_call ?l2 x') of
               Inl e \<Rightarrow> Inl e | Inr x' \<Rightarrow> Linear_call ?l3 x') of
         Inl e \<Rightarrow> Inl e | Inr x' \<Rightarrow> Linear_call ?l4 x')"
    by (simp add: forward_def split: sum.splits)
  also have "\<dots> = Linear_call (single_affine self) x"
    by (simp only: c2 c3 c4)
  finally show "forward self x = Linear_call (single_affine self) x" .
qed

text \<open>
  Claim C1: for a model whose layers have the shapes the constructor gives them, there
  are one weight matrix \<open>W\<close> (\<open>output_dim\<close> rows, \<open>input_dim\<close> columns) and one bias \<open>b\<close>,
  computed from the parameters of the four layers alone, such that for every input vector
  \<open>x\<close> of length \<open>input_dim\<close> the forward pass returns \<open>W x + b\<close>: entry \<open>j\<close> is the sum over
  \<open>k\<close> of \<open>W j k * x k\<close>, plus \<open>b j\<close>. Any other input length raises, in the four layers
  as in the single one.
\<close>

theorem forward_single_affine:
  assumes "LinearRegression_shaped input_dim hidden_dim output_dim self"
  shows "\<exists>W b. W = weight (single_affine self) \<and> b = bias (single_affine self) \<and>
           length W = output_dim \<and> length b = output_dim \<and>
           (\<forall>row \<in> set W. length row = input_dim) \<and>
           (\<forall>x. length x = input_dim \<longrightarrow>
              forward self x = Inr (vadd (matvec W x) b) \<and>
              (\<forall>j<output_dim.
                 vadd (matvec W x) b ! j = (\<Sum>k<input_dim. W ! j ! k * x ! k) + b ! j)) \<and>
           (\<forall>x. length x \<noteq> input_dim \<longrightarrow> forward self x = Inl RuntimeError)"
proof -
  let ?W = "weight (single_affine self)" and ?b = "bias (single_affine self)"
  note c = forward_collapse [OF assms]
  from c(1) c(2) c(3) have shape: "length ?W = output_dim" "length ?b = output_dim"
      "\<forall>row \<in> set ?W. length row = input_dim"
    by (simp_all add: Linear_shaped_def)
  have call: "forward self x = Inr (vadd (matvec ?W x) ?b)" if "length x = input_dim" for x
    using that c(2) by (simp add: c(4) Linear_call_def)
  have entry: "vadd (matvec ?W x) ?b ! j = (\<Sum>k<input_dim. ?W ! j ! k * x ! k) + ?b ! j"
    if "length x = input_dim" and "j < output_dim" for x j
  proof -
    have "length (?W ! j) = length x" using that shape by simp
    then show ?thesis using that shape affine_entry [of j ?W ?b x] by simp
  qed
  have bad: "forward self x = Inl RuntimeError" if "length x \<noteq> input_dim" for x
    using that c(2) by (simp add: c(4) Linear_call_def)
  from shape call entry bad show ?thesis by simp
qed

theorem forward_single_affine_witness:
  "LinearRegression_shaped 2 2 1
     \<lparr> input_to_hidden = \<lparr> in_features = 2, out_features = 2, weight = [[1, 2], [0, 1]], bias = [1, 0] \<rparr>,
       hidden_layer_1 = \<lparr> in_features = 2, out_features = 2, weight = [[1, 1], [2, 0]], bias = [0, 1] \<rparr>,
       hidden_layer_2 = \<lparr> in_features = 2, out_features = 2, weight = [[1, 0], [0, 1]], bias = [1, 1] \<rparr>,
       hidden_to_output = \<lparr> in_features = 2, out_features = 1, weight = [[1, 3]], bias = [2] \<rparr> \<rparr> \<and>
   forward
     \<lparr> input_to_hidden = \<lparr> in_features = 2, out_features = 2, weight = [[1, 2], [0, 1]], bias = [1, 0] \<rparr>,
       hidden_layer_1 = \<lparr> in_features = 2, out_features = 2, weight = [[1, 1], [2, 0]], bias = [0, 1] \<rparr>,
       hidden_layer_2 = \<lparr> in_features = 2, out_features = 2, weight = [[1, 0], [0, 1]], bias = [1, 1] \<rparr>,
       hidden_to_output = \<lparr> in_features = 2, out_features = 1, weight = [[1, 3]], bias = [2] \<rparr> \<rparr>
     [1, 1] = Inr (vadd (matvec [[7, 15]] [1, 1]) [16]) \<and>
   vadd (matvec [[7, 15]] [1, 1]) [16] = [38]"
proof -
  let ?M = "\<lparr> input_to_hidden = \<lparr> in_features = 2, out_features = 2, weight = [[1, 2], [0, 1]], bias = [1, 0] \<rparr>,
       hidden_layer_1 = \<lparr> in_features = 2, out_features = 2, weight = [[1, 1], [2, 0]], bias = [0, 1] \<rparr>,
       hidden_layer_2 = \<lparr> in_features = 2, out_features = 2, weight = [[1, 0], [0, 1]], bias = [1, 1] \<rparr>,
       hidden_to_output = \<lparr> in_features = 2, out_features = 1, weight = [[1, 3]], bias = [2] \<rparr> \<rparr>"
  have shaped: "LinearRegression_shaped 2 2 1 ?M"
    by (simp add: LinearRegression_shaped_def Linear_shaped_def)
  have W: "weight (single_affine ?M) = [[7, 15]]"
    by (simp add: single_affine_def compose_Linear_def matmul_def matvec_def eval_nat_numeral)
  have b: "bias (single_affine ?M) = [16]"
    by (simp add: single_affine_def compose_Linear_def matmul_def matvec_def eval_nat_numeral)
  have len: "length [1, 1 :: real] = 2" by simp
  from forward_single_affine [OF shaped]
  have "\<forall>x. length x = 2 \<longrightarrow>
      forward ?M x = Inr (vadd (matvec (weight (single_affine ?M)) x) (bias (single_affine ?M)))"
    by blast
  with len have "forward ?M [1, 1] =
      Inr (vadd (matvec (weight (single_affine ?M)) [1, 1]) (bias (single_affine ?M)))"
    by blast
  then have "forward ?M [1, 1] = Inr (vadd (matvec [[7, 15]] [1, 1]) [16])"
    by (simp only: W b)
  moreover have "vadd (matvec [[7, 15]] [1, 1]) [16] = [38]"
    by (simp add: matvec_def)
  ultimately show ?thesis using shaped by simp
qed

section \<open>The training loop and its progress report\<close>

text \<open>
  Python's \<^verbatim>\<open>//\<close> and \<^verbatim>\<open>%\<close> on integers round towards minus infinity, as
  \<open>div\<close> and \<open>mod\<close> on \<open>int\<close> do, and raise \<^verbatim>\<open>ZeroDivisionError\<close> on a zero divisor.
  \<^verbatim>\<open>range(n)\<close> is empty for \<open>n \<le> 0\<close>.
\<close>

definition py_floordiv :: "int \<Rightarrow> int \<Rightarrow> error + int" where
  "py_floordiv a b = (if b = 0 then Inl ZeroDivisionError else Inr (a div b))"

definition py_mod :: "int \<Rightarrow> int \<Rightarrow> error + int" where
  "py_mod a b = (if b = 0 then Inl ZeroDivisionError else Inr (a mod b))"

definition range_py :: "int \<Rightarrow> int list" where
  "range_py n = map int [0..<nat n]"

text \<open>
  The reporting condition \<^verbatim>\<open>not ((epoch + 1) % (epochs // 10))\<close>: the quotient is
  computed first, then the remainder; \<^verbatim>\<open>not\<close> of an integer is true exactly for 0.
\<close>

definition report_cond :: "int \<Rightarrow> int \<Rightarrow> error + bool" where
  "report_cond epoch epochs =
     (case py_floordiv epochs 10 of
        Inl e \<Rightarrow> Inl e
      | Inr d \<Rightarrow>
          (case py_mod (epoch + 1) d of
             Inl e \<Rightarrow> Inl e
           | Inr r \<Rightarrow> Inr (r = 0)))"

text \<open>
  One printed progress line: the epoch number \<^verbatim>\<open>epoch + 1\<close>, the batch count
  \<^verbatim>\<open>i + 1\<close> and the average \<^verbatim>\<open>running_loss / (i + 1)\<close>.
\<close>

record 'l progress_line =
  pl_epoch :: int
  pl_batches :: int
  pl_loss :: 'l

text \<open>
  The inner loop over \<^verbatim>\<open>enumerate(trainloader)\<close>. What the tensor library does for
  one mini-batch (forward pass, loss, \<^verbatim>\<open>zero_grad\<close>, \<^verbatim>\<open>backward\<close>, optimizer
  step, \<^verbatim>\<open>loss.item()\<close>) is the parameter \<open>step\<close>, from the model's parameters and
  the batch to the updated parameters and the loss value; the type of loss values is any
  type with a zero and an addition. The loop variable \<^verbatim>\<open>i\<close> is unbound before the
  first batch of the first epoch and keeps its last value afterwards, so it is carried
  as an \<open>int option\<close>.
\<close>

fun batch_loop ::
  "('m \<Rightarrow> 'b \<Rightarrow> 'm \<times> 'l) \<Rightarrow> int \<Rightarrow> 'b list \<Rightarrow> 'm \<times> int option \<times> 'l \<Rightarrow>
   'm \<times> int option \<times> ('l::{zero,plus})" where
  "batch_loop step k [] s = s"
| "batch_loop step k (batch # rest) (m, i, running_loss) =
     (case step m batch of
        (m', loss) \<Rightarrow> batch_loop step (k + 1) rest (m', Some k, running_loss + loss))"

text \<open>
  The outer loop over \<^verbatim>\<open>range(epochs)\<close>. \<open>trainloader epoch\<close> is the list of
  mini-batches the shuffling loader yields in that epoch, and \<open>fdiv\<close> is the division of
  the running loss by the batch count. Reading \<^verbatim>\<open>i\<close> while it is unbound raises
  \<^verbatim>\<open>NameError\<close>. The result holds the final parameters, the last value of
  \<^verbatim>\<open>i\<close> and the lines printed, in order.
\<close>

fun epoch_loop ::
  "('m \<Rightarrow> 'b \<Rightarrow> 'm \<times> 'l) \<Rightarrow> (int \<Rightarrow> 'b list) \<Rightarrow> ('l \<Rightarrow> int \<Rightarrow> 'l) \<Rightarrow> int \<Rightarrow>
   int list \<Rightarrow> 'm \<times> int option \<Rightarrow> 'l progress_line list \<Rightarrow>
   error + ('m \<times> int option \<times> ('l::{zero,plus}) progress_line list)" where
  "epoch_loop step trainloader fdiv epochs [] (m, i) out = Inr (m, i, out)"
| "epoch_loop step trainloader fdiv epochs (epoch # later) (m, i) out =
     (case batch_loop step 0 (trainloader epoch) (m, i, 0) of
        (m', i', running_loss) \<Rightarrow>
          (case report_cond epoch epochs of
             Inl e \<Rightarrow> Inl e
           | Inr False \<Rightarrow> epoch_loop step trainloader fdiv epochs later (m', i') out
           | Inr True \<Rightarrow>
               (case i' of
                  None \<Rightarrow> Inl NameError
                | Some iv \<Rightarrow>
                    epoch_loop step trainloader fdiv epochs later (m', i')
                      (out @ [\<lparr> pl_epoch = epoch + 1, pl_batches = iv + 1,
                                pl_loss = fdiv running_loss (iv + 1) \<rparr>]))))"

definition training ::
  "('m \<Rightarrow> 'b \<Rightarrow> 'm \<times> 'l) \<Rightarrow> (int \<Rightarrow> 'b list) \<Rightarrow> ('l \<Rightarrow> int \<Rightarrow> 'l) \<Rightarrow> int \<Rightarrow> 'm \<Rightarrow>
   error + ('m \<times> int option \<times> ('l::{zero,plus}) progress_line list)" where
  "training step trainloader fdiv epochs model =
     epoch_loop step trainloader fdiv epochs (range_py epochs) (model, None) []"

text \<open>
  Quantities the loop passes through, named for the statements below: the parameters
  after \<open>n\<close> whole epochs, the running loss accumulated in epoch \<open>n\<close>, and the line that
  epoch \<open>n\<close> prints when it reports.
\<close>

primrec model_after ::
  "('m \<Rightarrow> 'b \<Rightarrow> 'm \<times> 'l::{zero,plus}) \<Rightarrow> (int \<Rightarrow> 'b list) \<Rightarrow> 'm \<Rightarrow> nat \<Rightarrow> 'm" where
  "model_after step trainloader model 0 = model"
| "model_after step trainloader model (Suc n) =
     fst (batch_loop step 0 (trainloader (int n))
            (model_after step trainloader model n, None, 0::'l))"

definition epoch_loss ::
  "('m \<Rightarrow> 'b \<Rightarrow> 'm \<times> 'l) \<Rightarrow> (int \<Rightarrow> 'b list) \<Rightarrow> 'm \<Rightarrow> nat \<Rightarrow> 'l::{zero,plus}" where
  "epoch_loss step trainloader model n =
     snd (snd (batch_loop step 0 (trainloader (int n))
                 (model_after step trainloader model n, None, 0)))"

definition expected_line ::
  "('m \<Rightarrow> 'b \<Rightarrow> 'm \<times> 'l) \<Rightarrow> (int \<Rightarrow> 'b list) \<Rightarrow> ('l \<Rightarrow> int \<Rightarrow> 'l) \<Rightarrow> 'm \<Rightarrow> nat \<Rightarrow>
   ('l::{zero,plus}) progress_line" where
  "expected_line step trainloader fdiv model n =
     \<lparr> pl_epoch = int n + 1,
       pl_batches = int (length (trainloader (int n))),
       pl_loss = fdiv (epoch_loss step trainloader model n)
                   (int (length (trainloader (int n)))) \<rparr>"

section \<open>Properties of the training loop\<close>

lemma batch_loop_index:
  "fst (snd (batch_loop step k bs (m, i, rl))) =
     (if bs = [] then i else Some (k + int (length bs) - 1))"
proof (induction bs arbitrary: k m i rl)
  case Nil
  then show ?case by simp
next
  case (Cons b bs)
  obtain m' l where st: "step m b = (m', l)" by (cases "step m b")
  show ?case using Cons.IH [of "k + 1" m' "Some k" "rl + l"] st
    by (simp split: if_splits)
qed

lemma batch_loop_forgets_index:
  "fst (batch_loop step k bs (m, i, rl)) = fst (batch_loop step k bs (m, None, rl)) \<and>
   snd (snd (batch_loop step k bs (m, i, rl))) = snd (snd (batch_loop step k bs (m, None, rl)))"
proof (cases bs)
  case Nil
  then show ?thesis by simp
next
  case (Cons b rest)
  obtain m' l where st: "step m b = (m', l)" by (cases "step m b")
  show ?thesis using Cons st by simp
qed

lemma batch_loop_nonempty:
  assumes "bs \<noteq> []"
  shows "batch_loop step 0 bs (m, i, rl) =
     (fst (batch_loop step 0 bs (m, None, rl)), Some (int (length bs) - 1),
      snd (snd (batch_loop step 0 bs (m, None, rl))))"
proof -
  obtain M I R where r: "batch_loop step 0 bs (m, i, rl) = (M, I, R)"
    by (cases "batch_loop step 0 bs (m, i, rl)")
  have "I = Some (int (length bs) - 1)"
    using batch_loop_index [of step 0 bs m i rl] r assms by simp
  moreover have "M = fst (batch_loop step 0 bs (m, None, rl))"
    using batch_loop_forgets_index [of step 0 bs m i rl] r by simp
  moreover have "R = snd (snd (batch_loop step 0 bs (m, None, rl)))"
    using batch_loop_forgets_index [of step 0 bs m i rl] r by simp
  ultimately show ?thesis using r by simp
qed

lemma report_cond_positive:
  assumes "epochs div 10 = d" and "d \<noteq> 0"
  shows "report_cond epoch epochs = Inr ((epoch + 1) mod d = 0)"
  using assms by (simp add: report_cond_def py_floordiv_def py_mod_def)

lemma epoch_loop_upt:
  assumes d: "epochs div 10 = d" "d \<noteq> 0"
    and ne: "\<forall>n. a \<le> n \<and> n < b \<longrightarrow> trainloader (int n) \<noteq> []"
    and ab: "a \<le> b"
  shows "\<exists>i'. epoch_loop step trainloader fdiv epochs (map int [a..<b])
            (model_after step trainloader m0 a, i) out =
          Inr (model_after step trainloader m0 b, i',
               out @ map (expected_line step trainloader fdiv m0)
                       (filter (\<lambda>n. (int n + 1) mod d = 0) [a..<b]))"
  using ne ab
proof (induction "b - a" arbitrary: a i out)
  case 0
  then show ?case by simp
next
  case (Suc k)
  then have lt: "a < b" and k: "k = b - Suc a" and le: "Suc a \<le> b" by simp_all
  have ne_a: "trainloader (int a) \<noteq> []" using Suc.prems(1) lt by simp
  have ne': "\<forall>n. Suc a \<le> n \<and> n < b \<longrightarrow> trainloader (int n) \<noteq> []"
    using Suc.prems(1) by simp
  let ?m = "model_after step trainloader m0 a"
  have bl: "batch_loop step 0 (trainloader (int a)) (?m, i, 0) =
      (model_after step trainloader m0 (Suc a),
       Some (int (length (trainloader (int a))) - 1),
       epoch_loss step trainloader m0 a)"
    using batch_loop_nonempty [OF ne_a, of step ?m i 0]
    by (simp add: epoch_loss_def)
  have rc: "report_cond (int a) epochs = Inr ((int a + 1) mod d = 0)"
    by (rule report_cond_positive [OF d])
  have split: "[a..<b] = a # [Suc a..<b]" using lt by (simp add: upt_conv_Cons)
  show ?case
  proof (cases "(int a + 1) mod d = 0")
    case True
    from Suc.hyps(1) [OF k ne' le,
        of "Some (int (length (trainloader (int a))) - 1)"
           "out @ [expected_line step trainloader fdiv m0 a]"]
    obtain i' where "epoch_loop step trainloader fdiv epochs (map int [Suc a..<b])
            (model_after step trainloader m0 (Suc a),
             Some (int (length (trainloader (int a))) - 1))
            (out @ [expected_line step trainloader fdiv m0 a]) =
          Inr (model_after step trainloader m0 b, i',
               (out @ [expected_line step trainloader fdiv m0 a]) @
                 map (expected_line step trainloader fdiv m0)
                   (filter (\<lambda>n. (int n + 1) mod d = 0) [Suc a..<b]))" by blast
    then show ?thesis using True bl rc split
      by (simp add: expected_line_def)
  next
    case False
    from Suc.hyps(1) [OF k ne' le,
        of "Some (int (length (trainloader (int a))) - 1)" out]
    obtain i' where "epoch_loop step trainloader fdiv epochs (map int [Suc a..<b])
            (model_after step trainloader m0 (Suc a),
             Some (int (length (trainloader (int a))) - 1)) out =
          Inr (model_after step trainloader m0 b, i',
               out @ map (expected_line step trainloader fdiv m0)
                   (filter (\<lambda>n. (int n + 1) mod d = 0) [Suc a..<b]))" by blast
    then show ?thesis using False bl rc split
      by simp
  qed
qed


lemma filter_block:
  assumes "0 < d"
  shows "filter (\<lambda>n. Suc n mod d = 0) [d * k..<d * k + d] = [d * k + d - 1]"
proof -
  have sp: "[d * k..<d * k + d] = [d * k..<d * k + d - 1] @ [d * k + d - 1]"
  proof -
    have e: "d * k + d = Suc (d * k + d - 1)" using assms by simp
    have "d * k \<le> d * k + d - 1" using assms by simp
    then have "[d * k..<Suc (d * k + d - 1)] = [d * k..<d * k + d - 1] @ [d * k + d - 1]"
      by (rule upt_Suc_append)
    with e show ?thesis by simp
  qed
  have none: "filter (\<lambda>n. Suc n mod d = 0) [d * k..<d * k + d - 1] = []"
  proof -
    have "Suc n mod d \<noteq> 0" if "d * k \<le> n" and "n < d * k + d - 1" for n
    proof -
      from that(1) obtain r where r: "n = d * k + r" by (auto simp: le_iff_add)
      with that(2) have "Suc r < d" by simp
      then have "Suc n mod d = Suc r" using r by (simp add: add.commute)
      then show ?thesis by simp
    qed
    then show ?thesis by (simp add: filter_empty_conv)
  qed
  have "Suc (d * k + d - 1) = d * Suc k" using assms by simp
  then have "Suc (d * k + d - 1) mod d = 0" by simp
  with sp none show ?thesis by simp
qed

lemma filter_multiples:
  assumes "0 < d"
  shows "filter (\<lambda>n. Suc n mod d = 0) [0..<d * k] = map (\<lambda>j. d * j + d - 1) [0..<k]"
proof (induction k)
  case 0
  then show ?case by simp
next
  case (Suc k)
  have "[0..<d * k + d] = [0..<d * k] @ [d * k..<d * k + d]"
    by (rule upt_add_eq_append) simp
  moreover have "d * Suc k = d * k + d" by simp
  ultimately have "[0..<d * Suc k] = [0..<d * k] @ [d * k..<d * k + d]"
    by (simp only:)
  then show ?case using Suc filter_block [OF assms, of k] by simp
qed

lemma reported_epochs_1000:
  "filter (\<lambda>n. (int n + 1) mod 100 = 0) [0..<1000] =
     [99, 199, 299, 399, 499, 599, 699, 799, 899, 999]"
proof -
  have P: "(\<lambda>n. (int n + 1) mod 100 = 0) = (\<lambda>n. Suc n mod 100 = 0)"
  proof
    fix n
    have "int (Suc n mod 100) = (int n + 1) mod 100" by (simp add: zmod_int add.commute)
    then have "((int n + 1) mod 100 = 0) = (int (Suc n mod 100) = 0)" by simp
    then show "((int n + 1) mod 100 = 0) = (Suc n mod 100 = 0)"
      by (simp only: of_nat_eq_0_iff)
  qed
  have m: "(100::nat) * 10 = 1000" by simp
  have "filter (\<lambda>n. Suc n mod 100 = 0) [0..<100 * 10] = map (\<lambda>j. 100 * j + 100 - 1) [0..<10]"
    by (rule filter_multiples) simp
  then have "filter (\<lambda>n. (int n + 1) mod 100 = 0) [0..<1000] =
      map (\<lambda>j. 100 * j + 100 - 1) [0..<10]"
    by (simp only: P m)
  also have "\<dots> = [99, 199, 299, 399, 499, 599, 699, 799, 899, 999]"
    by code_simp
  finally show ?thesis .
qed


lemma range_py_upt: "range_py 1000 = map int [0..<1000]"
  by (simp only: range_py_def nat_numeral)

lemma range_py_member: "epoch \<in> set (range_py epochs) \<longleftrightarrow> 0 \<le> epoch \<and> epoch < epochs"
proof
  assume "epoch \<in> set (range_py epochs)"
  then obtain n where "epoch = int n" and "n < nat epochs"
    by (auto simp: range_py_def)
  then show "0 \<le> epoch \<and> epoch < epochs" by simp
next
  assume a: "0 \<le> epoch \<and> epoch < epochs"
  then have "nat epoch < nat epochs" and "epoch = int (nat epoch)" by simp_all
  then show "epoch \<in> set (range_py epochs)"
    unfolding range_py_def by (metis atLeast0LessThan imageI lessThan_iff set_map set_upt)
qed

lemma report_cond_error:
  "report_cond epoch epochs = Inl ZeroDivisionError \<longleftrightarrow> epochs div 10 = 0"
  by (simp add: report_cond_def py_floordiv_def py_mod_def)

lemma epoch_loop_no_zero_division:
  assumes "epochs div 10 \<noteq> 0"
  shows "epoch_loop step trainloader fdiv epochs es (m, i) out \<noteq> Inl ZeroDivisionError"
proof (induction es arbitrary: m i out)
  case Nil
  then show ?case by simp
next
  case (Cons epoch later)
  obtain m' i' rl where bl: "batch_loop step 0 (trainloader epoch) (m, i, 0) = (m', i', rl)"
    by (cases "batch_loop step 0 (trainloader epoch) (m, i, 0)")
  have rc: "report_cond epoch epochs = Inr ((epoch + 1) mod (epochs div 10) = 0)"
    using assms by (intro report_cond_positive) simp_all
  show ?case
  proof (cases "(epoch + 1) mod (epochs div 10) = 0")
    case True
    then show ?thesis using bl rc Cons.IH by (cases i') simp_all
  next
    case False
    then show ?thesis using bl rc Cons.IH by simp
  qed
qed

lemma training_few_epochs:
  assumes "0 < epochs" and "epochs < 10"
  shows "training step trainloader fdiv epochs model = Inl ZeroDivisionError"
proof -
  have "0 < nat epochs" using assms by simp
  then have "[0..<nat epochs] = 0 # [Suc 0..<nat epochs]" by (simp add: upt_conv_Cons)
  then have r: "range_py epochs = 0 # map int [Suc 0..<nat epochs]"
    by (simp add: range_py_def)
  have "epochs div 10 = 0" using assms by simp
  then have rc: "report_cond 0 epochs = Inl ZeroDivisionError"
    by (simp add: report_cond_error)
  obtain m' i' rl where "batch_loop step 0 (trainloader 0) (model, None, 0) = (m', i', rl)"
    by (cases "batch_loop step 0 (trainloader 0) (model, None, 0)")
  then show ?thesis using r rc by (simp add: training_def)
qed

lemma training_zero_division_iff:
  "training step trainloader fdiv epochs model = Inl ZeroDivisionError \<longleftrightarrow>
     0 < epochs \<and> epochs < 10"
proof (cases "0 < epochs \<and> epochs < 10")
  case True
  then show ?thesis using training_few_epochs [of epochs step trainloader fdiv model] by simp
next
  case False
  show ?thesis
  proof (cases "epochs \<le> 0")
    case True
    then have "range_py epochs = []" by (simp add: range_py_def)
    then show ?thesis using True by (simp add: training_def)
  next
    case nonpos: False
    with False have "10 \<le> epochs" by simp
    then have "epochs div 10 \<noteq> 0" by simp
    then show ?thesis using False
      by (simp add: training_def epoch_loop_no_zero_division)
  qed
qed

text \<open>
  Claim C6: with \<open>epochs = 1000\<close> and a loader that yields at least one mini-batch in every
  epoch, the run completes and prints exactly the lines of the epochs whose number
  \<open>epoch + 1\<close> is a multiple of \<open>epochs div 10 = 100\<close>; each line holds the epoch number, the
  batch count of that epoch and the running loss of that epoch divided by the batch count;
  the epoch numbers printed are 100, 200, ..., 1000, ten lines in all.
\<close>

theorem training_progress_lines:
  assumes "\<And>n. n < 1000 \<Longrightarrow> trainloader (int n) \<noteq> []"
  shows "\<exists>m i lines.
           training step trainloader fdiv 1000 model = Inr (m, i, lines) \<and>
           lines = map (expected_line step trainloader fdiv model)
                     (filter (\<lambda>n. (int n + 1) mod (1000 div 10) = 0) [0..<1000]) \<and>
           map pl_epoch lines = [100, 200, 300, 400, 500, 600, 700, 800, 900, 1000] \<and>
           length lines = 10"
proof -
  have d: "(1000::int) div 10 = 100" "(100::int) \<noteq> 0" by simp_all
  have ne: "\<forall>n. 0 \<le> n \<and> n < 1000 \<longrightarrow> trainloader (int n) \<noteq> []"
    using assms by blast
  have m0: "model_after step trainloader model 0 = model" by simp
  obtain i' where run: "epoch_loop step trainloader fdiv 1000 (map int [0..<1000])
        (model_after step trainloader model 0, None) [] =
      Inr (model_after step trainloader model 1000, i',
           [] @ map (expected_line step trainloader fdiv model)
                  (filter (\<lambda>n. (int n + 1) mod 100 = 0) [0..<1000]))"
    using epoch_loop_upt [OF d ne, of step fdiv model None "[]"] by blast
  let ?lines = "map (expected_line step trainloader fdiv model)
                  (filter (\<lambda>n. (int n + 1) mod 100 = 0) [0..<1000])"
  have t: "training step trainloader fdiv 1000 model =
      Inr (model_after step trainloader model 1000, i', ?lines)"
    using run by (simp only: training_def range_py_upt m0 append_Nil)
  have l1: "?lines = map (expected_line step trainloader fdiv model)
                  (filter (\<lambda>n. (int n + 1) mod (1000 div 10) = 0) [0..<1000])"
    by (simp only: d)
  have l2: "?lines = map (expected_line step trainloader fdiv model)
      [99, 199, 299, 399, 499, 599, 699, 799, 899, 999]"
    by (simp only: reported_epochs_1000)
  have l3: "map pl_epoch ?lines = [100, 200, 300, 400, 500, 600, 700, 800, 900, 1000]"
    unfolding l2 by (simp add: expected_line_def)
  have l4: "length ?lines = 10"
    unfolding l2 by simp
  show ?thesis
    by (intro exI conjI) (rule t, rule l1, rule l3, rule l4)
qed

theorem training_progress_lines_witness:
  "\<exists>m i lines.
     training (\<lambda>m b. (m + b, 2 * real_of_int b)) (\<lambda>epoch. [1, 2, 3])
       (\<lambda>l n. l / real_of_int n) 1000 (0::int) = Inr (m, i, lines) \<and>
     map pl_epoch lines = [100, 200, 300, 400, 500, 600, 700, 800, 900, 1000] \<and>
     length lines = 10"
proof -
  have batches: "(\<lambda>epoch. [1, 2, 3 :: int]) (int n) \<noteq> []" for n
    by simp
  from training_progress_lines
    [of "\<lambda>epoch. [1, 2, 3]" "\<lambda>m b. (m + b, 2 * real_of_int b)"
        "\<lambda>l n. l / real_of_int n" "0::int", OF batches]
  show ?thesis
    by (elim exE conjE) (intro exI conjI; assumption)
qed

text \<open>
  Claim C10: wherever the loop evaluates the reporting condition (\<open>epoch\<close> drawn from
  \<^verbatim>\<open>range(epochs)\<close>), it is defined exactly when \<open>10 \<le> epochs\<close>; below 10 the divisor
  \<open>epochs div 10\<close> is 0 and the remainder raises \<^verbatim>\<open>ZeroDivisionError\<close>, which ends the
  training run exactly for \<open>0 < epochs < 10\<close>. With \<open>epochs = 1000\<close> the divisor is 100, the
  condition is defined at every epoch and the run never raises that error.
\<close>

theorem report_cond_needs_ten_epochs:
  "(epoch \<in> set (range_py epochs) \<longrightarrow>
      (report_cond epoch epochs = Inl ZeroDivisionError \<longleftrightarrow> epochs < 10) \<and>
      ((\<exists>b. report_cond epoch epochs = Inr b) \<longleftrightarrow> 10 \<le> epochs) \<and>
      (epochs < 10 \<longrightarrow> py_floordiv epochs 10 = Inr 0)) \<and>
   (training step trainloader fdiv epochs model = Inl ZeroDivisionError \<longleftrightarrow>
      0 < epochs \<and> epochs < 10) \<and>
   py_floordiv 1000 10 = Inr 100 \<and>
   (\<exists>b. report_cond epoch 1000 = Inr b) \<and>
   training step trainloader fdiv 1000 model \<noteq> Inl ZeroDivisionError"
proof -
  have reach: "(report_cond epoch epochs = Inl ZeroDivisionError \<longleftrightarrow> epochs < 10) \<and>
      ((\<exists>b. report_cond epoch epochs = Inr b) \<longleftrightarrow> 10 \<le> epochs) \<and>
      (epochs < 10 \<longrightarrow> py_floordiv epochs 10 = Inr 0)"
    if "epoch \<in> set (range_py epochs)"
  proof -
    from that have pos: "0 < epochs" by (simp add: range_py_member)
    then have z: "epochs div 10 = 0 \<longleftrightarrow> epochs < 10" by auto
    have a: "report_cond epoch epochs = Inl ZeroDivisionError \<longleftrightarrow> epochs < 10"
      by (simp add: report_cond_error z)
    have b: "(\<exists>b. report_cond epoch epochs = Inr b) \<longleftrightarrow> 10 \<le> epochs"
    proof (cases "epochs < 10")
      case True
      with a show ?thesis by simp
    next
      case False
      with z have "epochs div 10 \<noteq> 0" by simp
      then show ?thesis using False report_cond_positive [of epochs "epochs div 10" epoch]
        by simp
    qed
    have c: "epochs < 10 \<longrightarrow> py_floordiv epochs 10 = Inr 0"
      using z by (simp add: py_floordiv_def)
    from a b c show ?thesis by blast
  qed
  have k: "py_floordiv 1000 10 = Inr 100" by (simp add: py_floordiv_def)
  have e: "\<exists>b. report_cond epoch 1000 = Inr b"
    using report_cond_positive [of 1000 100 epoch] by simp
  have n: "training step trainloader fdiv 1000 model \<noteq> Inl ZeroDivisionError"
    by (simp only: training_zero_division_iff) simp
  from reach k e n training_zero_division_iff [of step trainloader fdiv epochs model]
  show ?thesis by blast
qed

theorem report_cond_needs_ten_epochs_witness:
  "0 \<in> set (range_py 5) \<and> report_cond 0 5 = Inl ZeroDivisionError \<and>
   py_floordiv 5 10 = Inr 0 \<and>
   training (\<lambda>m b. (m + b, 2 * real_of_int b)) (\<lambda>epoch. [1, 2, 3])
     (\<lambda>l n. l / real_of_int n) 5 (0::int) = Inl ZeroDivisionError"
  using report_cond_needs_ten_epochs
    [of 0 5 "\<lambda>m b. (m + b, 2 * real_of_int b)" "\<lambda>epoch. [1, 2, 3]"
        "\<lambda>l n. l / real_of_int n" "0::int"]
  by (simp add: range_py_member)

end
